theory Spec2Isabelle
  imports Main "HOL-Library.Log_Nat"
begin

section \<open>JavaScript numbers\<close>

text \<open>
  The component computes with JavaScript numbers, which are IEEE 754 doubles. Offsets, lengths
  and the page size are integers and are modelled as \<open>int\<close>; \<open>None\<close> of type \<open>int option\<close>
  stands for \<open>NaN\<close>, which the remainder by a zero page size produces. The two places where
  the source leaves the integers (\<open>0.2 * size\<close> and the height of a single element) are
  modelled on rationals with the rounding of a double written out: \<open>fl x\<close> is the double
  nearest to \<open>x\<close>, ties to even, for 53 significant bits. Exponent range is not modelled:
  every value here comes from lengths and pixel measures far from overflow and underflow.
\<close>

definition ilog2 :: "rat \<Rightarrow> int" where
  \<comment> \<open>for \<open>0 < x\<close>: the exponent \<open>e\<close> with \<open>2 powi e \<le> x < 2 powi (e + 1)\<close>\<close>
  "ilog2 x =
     (if 1 \<le> x then int (floorlog 2 (nat \<lfloor>x\<rfloor>)) - 1
      else let j = int (floorlog 2 (nat \<lfloor>1 / x\<rfloor>)) - 1
           in if x * 2 ^ nat j = 1 then - j else - j - 1)"

definition roundTiesToEven :: "rat \<Rightarrow> int" where
  "roundTiesToEven y =
     (let f = \<lfloor>y\<rfloor>; d = y - of_int f
      in if d < 1 / 2 then f else if 1 / 2 < d then f + 1 else if even f then f else f + 1)"

definition ulp :: "rat \<Rightarrow> rat" where
  \<comment> \<open>the spacing of the doubles in the binade of \<open>x\<close>\<close>
  "ulp x = 2 powi (ilog2 \<bar>x\<bar> - 52)"

definition fl :: "rat \<Rightarrow> rat" where
  "fl x = (if x = 0 then 0 else of_int (roundTiesToEven (x / ulp x)) * ulp x)"

definition fmul :: "rat \<Rightarrow> rat \<Rightarrow> rat" where
  "fmul a b = fl (a * b)"

definition fsub :: "rat \<Rightarrow> rat \<Rightarrow> rat" where
  "fsub a b = fl (a - b)"

definition fdiv :: "rat \<Rightarrow> rat \<Rightarrow> rat option" where
  \<comment> \<open>a division by zero gives an infinity or \<open>NaN\<close>: \<open>None\<close>\<close>
  "fdiv a b = (if b = 0 then None else Some (fl (a / b)))"

definition js_rem :: "int option \<Rightarrow> int \<Rightarrow> int option" where
  \<comment> \<open>\<open>a % b\<close>: the sign follows the dividend; \<open>NaN\<close> for \<open>b = 0\<close> and for \<open>undefined % b\<close>\<close>
  "js_rem a b =
     (case a of None \<Rightarrow> None
      | Some x \<Rightarrow> if b = 0 then None else Some (sgn x * (\<bar>x\<bar> mod \<bar>b\<bar>)))"

definition math_max0 :: "int option \<Rightarrow> int option" where
  \<comment> \<open>\<open>Math.max(0, x)\<close>, which is \<open>NaN\<close> for \<open>NaN\<close>\<close>
  "math_max0 x = map_option (max 0) x"

section \<open>Array slicing\<close>

definition slice_from :: "int \<Rightarrow> 'a list \<Rightarrow> 'a list" where
  \<comment> \<open>\<open>xs.slice(start)\<close>: a negative start counts from the end\<close>
  "slice_from start xs =
     (let len = int (length xs);
          k = (if start < 0 then max (len + start) 0 else min start len)
      in drop (nat k) xs)"

definition slice_upto :: "int \<Rightarrow> 'a list \<Rightarrow> 'a list" where
  \<comment> \<open>\<open>xs.slice(0, end)\<close>: a negative end counts from the end\<close>
  "slice_upto fin xs =
     (let len = int (length xs);
          k = (if fin < 0 then max (len + fin) 0 else min fin len)
      in take (nat k) xs)"

section \<open>State of the component\<close>

text \<open>
  One field for each \<open>useState\<close> of \<open>InfiniteScroll\<close>. \<open>data\<close> is \<open>T[] | undefined\<close>.
  \<open>fetchCalls\<close> is not state of the source: it records, in order, the arguments of every call
  of the \<open>fetchData\<close> property together with the effect that made it.
\<close>

datatype origin = Initial | Forward | Backward

record 'a component =
  prevOffset :: "int option"
  nextOffset :: int
  fetchDataForward :: bool
  fetchDataBackward :: bool
  dataFinished :: bool
  data :: "'a list option"
  loading :: bool
  fetchCalls :: "(origin \<times> int \<times> int option) list"

definition initial_component :: "'a component" where
  "initial_component =
     \<lparr>prevOffset = Some 0, nextOffset = 0, fetchDataForward = False, fetchDataBackward = False,
      dataFinished = False, data = Some [], loading = False, fetchCalls = []\<rparr>"

definition window :: "'a list option \<Rightarrow> 'a list" where
  \<comment> \<open>\<open>data || []\<close>\<close>
  "window d = (case d of None \<Rightarrow> [] | Some xs \<Rightarrow> xs)"

definition data_length :: "'a list option \<Rightarrow> int option" where
  \<comment> \<open>\<open>data?.length\<close>\<close>
  "data_length d = map_option (\<lambda>xs. int (length xs)) d"

definition maxNumberOfElements :: "int \<Rightarrow> int" where
  "maxNumberOfElements sz = sz * 2"

section \<open>Boundary markers\<close>

definition forwardThreshold :: "int \<Rightarrow> 'a list option \<Rightarrow> int" where
  \<comment> \<open>\<open>Math.floor((data?.length || size) - (0.2 * size))\<close>\<close>
  "forwardThreshold sz d =
     (let len = (case data_length d of None \<Rightarrow> sz | Some l \<Rightarrow> if l = 0 then sz else l)
      in \<lfloor>fsub (of_int len) (fmul (fl (1 / 5)) (of_int sz))\<rfloor>)"

definition backwardThreshold :: "int \<Rightarrow> int" where
  \<comment> \<open>\<open>Math.floor(0.2 * size)\<close>\<close>
  "backwardThreshold sz = \<lfloor>fmul (fl (1 / 5)) (of_int sz)\<rfloor>"

datatype slot = BackwardLoader | UpperTarget | LowerTarget | ForwardLoader | Element

definition positive :: "int option \<Rightarrow> bool" where
  \<comment> \<open>\<open>x > 0\<close>, false for \<open>NaN\<close>\<close>
  "positive x = (case x of None \<Rightarrow> False | Some v \<Rightarrow> 0 < v)"

definition render_element :: "bool \<Rightarrow> 'a component \<Rightarrow> int \<Rightarrow> int \<Rightarrow> nat \<Rightarrow> slot" where
  \<comment> \<open>the callback of \<open>(data || []).map\<close>, its branches in the order of the source; the two
      thresholds are the constants computed once in the body of the component\<close>
  "render_element loaderComponent s backwardThreshold' forwardThreshold' idx =
     (if idx = 0 \<and> loaderComponent \<and> loading s \<and> fetchDataBackward s then BackwardLoader
      else if positive (prevOffset s) \<and> int idx = backwardThreshold' then UpperTarget
      else if int idx = forwardThreshold' \<and> \<not> dataFinished s then LowerTarget
      else if int idx = int (length (window (data s))) - 1 \<and> loaderComponent
                \<and> \<not> dataFinished s \<and> fetchDataForward s then ForwardLoader
      else Element)"

definition render :: "int \<Rightarrow> bool \<Rightarrow> 'a component \<Rightarrow> slot list option" where
  \<comment> \<open>\<open>None\<close>: the component returns the loader alone and renders no element\<close>
  "render sz loaderComponent s =
     (let forwardThreshold' = forwardThreshold sz (data s);
          backwardThreshold' = backwardThreshold sz
      in if \<not> fetchDataForward s \<and> \<not> fetchDataBackward s \<and> loading s then None
         else Some (map (render_element loaderComponent s backwardThreshold' forwardThreshold')
                      [0..<length (window (data s))]))"

definition rendered :: "slot \<Rightarrow> int \<Rightarrow> bool \<Rightarrow> 'a component \<Rightarrow> bool" where
  "rendered x sz loaderComponent s =
     (case render sz loaderComponent s of None \<Rightarrow> False | Some slots \<Rightarrow> x \<in> set slots)"

section \<open>Events and effects\<close>

text \<open>
  The component is event driven. Each event below is one block of the source that runs without
  interruption: an observer callback, the start of a fetch, or the continuation of a fetch after
  its \<open>await\<close>. The state updates of one block are applied together, and then the effects
  whose dependency changed run (\<open>offset_effects\<close>). A fetch is two events, its call and its
  settlement, so any other event may come between them. A continuation reads \<open>data\<close> from
  the render in which its effect ran: the settlement events carry that captured value, and it
  is any value at all as far as the theorems go. The observers are set up again whenever
  \<open>data\<close> changes, so their callbacks read the current \<open>data\<close>. The lower marker is
  rendered only under \<open>!dataFinished\<close>, and a crossing of it is reported only while it is
  rendered. An observer is never disconnected, and the node that carried the upper marker can
  stay in the document when the marker is no longer rendered (the loader of a backward fetch
  takes its place), so an intersection of the upper observer is taken in any state. The
  \<open>size\<close> property is the same throughout. The container's scroll position and padding
  are not part of the state; the scroll adjustment of a backward fetch is
  \<open>scrollTopAdjustment\<close> below.
\<close>

datatype 'a outcome = Rejected | Resolved "'a list option"

datatype 'a event =
    FetchDataChanged
  | InitialSettled "'a outcome"
  | LowerIntersecting
  | UpperIntersecting
  | ForwardSettled "'a list option" "'a outcome"
  | BackwardSettled "'a list option" "'a outcome"

definition num_add :: "int option \<Rightarrow> int option \<Rightarrow> int option" where
  "num_add a b = (case (a, b) of (Some x, Some y) \<Rightarrow> Some (x + y) | _ \<Rightarrow> None)"

definition num_sub :: "int option \<Rightarrow> int option \<Rightarrow> int option" where
  "num_sub a b = (case (a, b) of (Some x, Some y) \<Rightarrow> Some (x - y) | _ \<Rightarrow> None)"

definition num_mul :: "int option \<Rightarrow> int option \<Rightarrow> int option" where
  "num_mul a b = (case (a, b) of (Some x, Some y) \<Rightarrow> Some (x * y) | _ \<Rightarrow> None)"

definition num_less :: "int option \<Rightarrow> int \<Rightarrow> bool" where
  \<comment> \<open>\<open>a < b\<close>, false when \<open>a\<close> is \<open>undefined\<close>\<close>
  "num_less a b = (case a of None \<Rightarrow> False | Some x \<Rightarrow> x < b)"

definition start_fetch :: "origin \<Rightarrow> int \<Rightarrow> int option \<Rightarrow> 'a component \<Rightarrow> 'a component" where
  \<comment> \<open>\<open>setLoading(true); fetch()\<close> up to the \<open>await\<close>\<close>
  "start_fetch who sz offset s =
     s\<lparr>loading := True, fetchCalls := fetchCalls s @ [(who, sz, offset)]\<rparr>"

definition offset_effects :: "int \<Rightarrow> 'a component \<Rightarrow> 'a component \<Rightarrow> 'a component" where
  \<comment> \<open>the effects on \<open>[nextOffset]\<close> and on \<open>[prevOffset]\<close>, in the order of the source\<close>
  "offset_effects sz old s =
     (let s1 = (if nextOffset s \<noteq> nextOffset old \<and> fetchDataForward s
                then start_fetch Forward sz (Some (nextOffset s)) s else s)
      in if prevOffset s \<noteq> prevOffset old \<and> fetchDataBackward s
         then start_fetch Backward sz (prevOffset s) s1 else s1)"

definition fetchData_changed :: "int \<Rightarrow> 'a component \<Rightarrow> 'a component" where
  "fetchData_changed sz s = start_fetch Initial sz (Some 0) s"

definition initial_settled :: "'a outcome \<Rightarrow> 'a component \<Rightarrow> 'a component" where
  "initial_settled r s =
     (case r of
        Rejected \<Rightarrow> s
      | Resolved d \<Rightarrow>
          s\<lparr>loading := False, data := d, prevOffset := Some 0, nextOffset := 0,
            dataFinished := False\<rparr>)"

definition lower_intersecting :: "int \<Rightarrow> 'a component \<Rightarrow> 'a component" where
  "lower_intersecting sz s =
     s\<lparr>nextOffset := nextOffset s + sz, fetchDataForward := True, fetchDataBackward := False\<rparr>"

definition setPrevOffset_updater :: "int \<Rightarrow> 'a list option \<Rightarrow> int option \<Rightarrow> int option" where
  "setPrevOffset_updater sz d prev =
     (let modulo = js_rem (data_length d) sz;
          newOffset = (if modulo = Some 0 then num_sub prev (Some sz)
                       else num_sub prev (num_sub (data_length d) (num_mul modulo (Some sz))))
      in math_max0 newOffset)"

definition upper_intersecting :: "int \<Rightarrow> 'a component \<Rightarrow> 'a component" where
  "upper_intersecting sz s =
     s\<lparr>prevOffset := setPrevOffset_updater sz (data s) (prevOffset s),
       fetchDataForward := False, fetchDataBackward := True\<rparr>"

definition handleExcessData_forward ::
    "int \<Rightarrow> 'a list \<Rightarrow> 'a component \<Rightarrow> 'a list \<times> 'a component" where
  "handleExcessData_forward sz xs s =
     (slice_from (- maxNumberOfElements sz) xs,
      s\<lparr>prevOffset :=
          num_add (prevOffset s) (Some (int (length xs) - maxNumberOfElements sz))\<rparr>)"

definition forward_settled ::
    "int \<Rightarrow> 'a list option \<Rightarrow> 'a outcome \<Rightarrow> 'a component \<Rightarrow> 'a component" where
  "forward_settled sz d r s =
     (case r of
        Rejected \<Rightarrow> s
      | Resolved moreData \<Rightarrow>
          let s1 = (if num_less (data_length moreData) sz then s\<lparr>dataFinished := True\<rparr> else s);
              newData = window d @ window moreData;
              (limitedData, s2) =
                 (if maxNumberOfElements sz < int (length newData)
                  then handleExcessData_forward sz newData s1 else (newData, s1))
          in s2\<lparr>loading := False, data := Some limitedData, fetchDataForward := False\<rparr>)"

definition handleExcessData_backward ::
    "int \<Rightarrow> 'a list \<Rightarrow> 'a component \<Rightarrow> 'a list \<times> 'a component" where
  "handleExcessData_backward sz xs s =
     (slice_upto (maxNumberOfElements sz) xs,
      s\<lparr>nextOffset := nextOffset s - (int (length xs) - maxNumberOfElements sz)\<rparr>)"

definition backward_settled ::
    "int \<Rightarrow> 'a list option \<Rightarrow> 'a outcome \<Rightarrow> 'a component \<Rightarrow> 'a component" where
  \<comment> \<open>\<open>moreData!.length\<close> throws when the fetch resolved with \<open>undefined\<close>: the updates
      made so far stay, \<open>setFetchDataBackward(false)\<close> is not reached\<close>
  "backward_settled sz d r s =
     (case r of
        Rejected \<Rightarrow> s
      | Resolved moreData \<Rightarrow>
          let s1 = s\<lparr>loading := False\<rparr>;
              newData = window moreData @ window d;
              (limitedData, s2) =
                 (if maxNumberOfElements sz < int (length newData)
                  then handleExcessData_backward sz newData s1 else (newData, s1));
              s3 = s2\<lparr>data := Some limitedData\<rparr>
          in (case moreData of None \<Rightarrow> s3 | Some _ \<Rightarrow> s3\<lparr>fetchDataBackward := False\<rparr>))"

definition step :: "int \<Rightarrow> bool \<Rightarrow> 'a event \<Rightarrow> 'a component \<Rightarrow> 'a component" where
  \<comment> \<open>the lower observer reports an intersection only while the lower marker is rendered;
      the callback of the upper observer may run in any state\<close>
  "step sz loaderComponent ev s =
     (case ev of
        FetchDataChanged \<Rightarrow> fetchData_changed sz s
      | InitialSettled r \<Rightarrow> offset_effects sz s (initial_settled r s)
      | LowerIntersecting \<Rightarrow>
          if rendered LowerTarget sz loaderComponent s
          then offset_effects sz s (lower_intersecting sz s) else s
      | UpperIntersecting \<Rightarrow> offset_effects sz s (upper_intersecting sz s)
      | ForwardSettled d r \<Rightarrow> offset_effects sz s (forward_settled sz d r s)
      | BackwardSettled d r \<Rightarrow> offset_effects sz s (backward_settled sz d r s))"

fun run :: "int \<Rightarrow> bool \<Rightarrow> 'a event list \<Rightarrow> 'a component \<Rightarrow> 'a component" where
  "run sz loaderComponent [] s = s"
| "run sz loaderComponent (ev # evs) s = run sz loaderComponent evs (step sz loaderComponent ev s)"

section \<open>Scroll adjustment after a backward fetch\<close>

definition scrollDelta :: "rat \<Rightarrow> int \<Rightarrow> int \<Rightarrow> rat \<Rightarrow> rat option" where
  \<comment> \<open>\<open>moreData.length * heightOfSingleElement - loaderComponentHeight\<close> with
      \<open>heightOfSingleElement = baseHeight / maxNumberOfElements\<close>\<close>
  "scrollDelta baseHeight maxElements prependedCount indicatorHeight =
     (case fdiv baseHeight (of_int maxElements) of
        None \<Rightarrow> None
      | Some heightOfSingleElement \<Rightarrow>
          Some (fsub (fmul (of_int prependedCount) heightOfSingleElement) indicatorHeight))"

definition scrollTopAdjustment :: "int \<Rightarrow> int \<Rightarrow> int option \<Rightarrow> 'a list \<Rightarrow> rat option" where
  \<comment> \<open>\<open>scrollHeight\<close> of the container and \<open>offsetHeight\<close> of the backward loader, which is
      \<open>undefined\<close> when no loader is rendered\<close>
  "scrollTopAdjustment sz scrollHeight offsetHeight moreData =
     (let loaderComponentHeight = (case offsetHeight of None \<Rightarrow> 0 | Some h \<Rightarrow> h)
      in scrollDelta (fsub (of_int scrollHeight) (of_int loaderComponentHeight))
           (maxNumberOfElements sz) (int (length moreData)) (of_int loaderComponentHeight))"

section \<open>Notions used in the statements\<close>

definition merge_event :: "'a event \<Rightarrow> bool" where
  \<comment> \<open>the continuation of a forward or backward fetch that resolved\<close>
  "merge_event ev =
     (case ev of ForwardSettled d (Resolved m) \<Rightarrow> True
      | BackwardSettled d (Resolved m) \<Rightarrow> True
      | _ \<Rightarrow> False)"

definition reset_event :: "'a event \<Rightarrow> bool" where
  \<comment> \<open>the \<open>fetchData\<close> property changes, or the fetch it starts settles\<close>
  "reset_event ev =
     (case ev of FetchDataChanged \<Rightarrow> True | InitialSettled r \<Rightarrow> True | _ \<Rightarrow> False)"

definition forward_calls :: "'a component \<Rightarrow> (origin \<times> int \<times> int option) list" where
  \<comment> \<open>the calls of \<open>fetchData\<close> made by the forward fetch effect\<close>
  "forward_calls s = filter (\<lambda>c. fst c = Forward) (fetchCalls s)"



definition example_scrolled :: "int component" where
  \<comment> \<open>a state for page size 10: a full window of 20 items behind a backward offset of 10\<close>
  "example_scrolled =
     \<lparr>prevOffset = Some 10, nextOffset = 20, fetchDataForward = False, fetchDataBackward = False,
      dataFinished = False,
      data = Some [11, 12, 13, 14, 15, 16, 17, 18, 19, 20, 21, 22, 23, 24, 25, 26, 27, 28, 29, 30],
      loading = False,
      fetchCalls = [(Initial, 10, Some 0), (Forward, 10, Some 10), (Forward, 10, Some 20)]\<rparr>"


section \<open>Rounding to a double\<close>

text \<open>
  The exponent found by \<open>ilog2\<close> brackets its argument, so \<open>fl\<close> rounds to 53 significant
  bits: the relative error is at most \<open>2 powi (- 53)\<close>, and a value that lies within that
  distance above an integer below \<open>2 ^ 53\<close> is rounded to the integer.
\<close>

lemma nat_floor_bounds:
  fixes x :: rat
  assumes "1 \<le> x"
  shows "0 < nat \<lfloor>x\<rfloor>" "of_nat (nat \<lfloor>x\<rfloor>) \<le> x" "x < of_nat (nat \<lfloor>x\<rfloor>) + 1"
proof -
  have f: "1 \<le> \<lfloor>x\<rfloor>" using assms by (simp add: le_floor_iff)
  then show "0 < nat \<lfloor>x\<rfloor>" by simp
  have "rat_of_nat (nat \<lfloor>x\<rfloor>) = of_int \<lfloor>x\<rfloor>" using f by simp
  then show "of_nat (nat \<lfloor>x\<rfloor>) \<le> x" "x < of_nat (nat \<lfloor>x\<rfloor>) + 1"
    using of_int_floor_le [of x] floor_correct [of x] by simp_all
qed

lemma floorlog2_bounds:
  assumes "0 < n"
  shows "0 < floorlog 2 n" "(2::rat) ^ (floorlog 2 n - 1) \<le> of_nat n"
    "rat_of_nat n + 1 \<le> 2 ^ floorlog 2 n"
proof -
  have "floorlog 2 n \<noteq> 0" using assms by (simp add: floorlog_eq_zero_iff)
  then show "0 < floorlog 2 n" by simp
  have b: "2 ^ (floorlog 2 n - 1) \<le> n" "n < 2 ^ floorlog 2 n"
    using floorlog_bounds [of n 2] assms by simp_all
  have "rat_of_nat (2 ^ (floorlog 2 n - 1)) \<le> of_nat n"
    using b(1) of_nat_le_iff by blast
  then show "(2::rat) ^ (floorlog 2 n - 1) \<le> of_nat n" by simp
  have "Suc n \<le> 2 ^ floorlog 2 n" using b(2) by simp
  then have "rat_of_nat (Suc n) \<le> of_nat (2 ^ floorlog 2 n)"
    using of_nat_le_iff by blast
  then show "rat_of_nat n + 1 \<le> 2 ^ floorlog 2 n" by simp
qed


lemma ilog2_ge1:
  fixes x :: rat
  assumes "1 \<le> x"
  shows "2 powi (ilog2 x) \<le> x \<and> x < 2 powi (ilog2 x + 1)"
proof -
  define n where "n = nat \<lfloor>x\<rfloor>"
  define f where "f = floorlog 2 n"
  have n: "0 < n" "of_nat n \<le> x" "x < of_nat n + 1"
    using nat_floor_bounds [OF assms] by (simp_all add: n_def)
  have f: "0 < f" "(2::rat) ^ (f - 1) \<le> of_nat n" "rat_of_nat n + 1 \<le> 2 ^ f"
    using floorlog2_bounds [OF n(1)] by (simp_all add: f_def)
  have e: "ilog2 x = int (f - 1)"
    using assms f(1) by (simp add: ilog2_def f_def n_def)
  have e1: "ilog2 x + 1 = int f"
    using e f(1) by simp
  have "(2::rat) ^ (f - 1) \<le> x" using f(2) n(2) by linarith
  moreover have "x < (2::rat) ^ f" using f(3) n(3) by linarith
  ultimately show ?thesis
    unfolding e1 unfolding e by simp
qed


lemma ilog2_lt1:
  fixes x :: rat
  assumes "0 < x" "x < 1"
  shows "2 powi (ilog2 x) \<le> x \<and> x < 2 powi (ilog2 x + 1)"
proof -
  define n where "n = nat \<lfloor>1 / x\<rfloor>"
  define f where "f = floorlog 2 n"
  have "1 \<le> 1 / x" using assms by simp
  then have n: "0 < n" "of_nat n \<le> 1 / x" "1 / x < of_nat n + 1"
    using nat_floor_bounds [of "1 / x"] by (simp_all add: n_def)
  have f: "0 < f" "(2::rat) ^ (f - 1) \<le> of_nat n" "rat_of_nat n + 1 \<le> 2 ^ f"
    using floorlog2_bounds [OF n(1)] by (simp_all add: f_def)
  have lo: "(2::rat) ^ (f - 1) \<le> 1 / x" using f(2) n(2) by linarith
  have hi: "1 / x < (2::rat) ^ f" using f(3) n(3) by linarith
  have p: "(0::rat) < 2 ^ (f - 1)" "(0::rat) < 2 ^ f" by simp_all
  have lo': "x \<le> 1 / 2 ^ (f - 1)"
    using lo assms(1) p(1) by (simp add: field_simps)
  have hi': "1 / 2 ^ f < x"
    using hi assms(1) p(2) by (simp add: field_simps)
  have j: "int (floorlog 2 (nat \<lfloor>1 / x\<rfloor>)) - 1 = int (f - 1)"
    using f(1) by (simp add: f_def n_def)
  have nj: "nat (int (f - 1)) = f - 1" by simp
  have il: "ilog2 x = (if x * 2 ^ (f - 1) = 1 then - int (f - 1) else - int (f - 1) - 1)"
    using assms(2) unfolding ilog2_def j Let_def nj by simp
  have a: "2 powi (- int f) = (1::rat) / 2 ^ f"
    by (simp add: power_int_minus_divide)
  have b: "2 powi (- int (f - 1)) = (1::rat) / 2 ^ (f - 1)"
    by (simp add: power_int_minus_divide)
  have e1: "- int (f - 1) - 1 = - int f" "- int (f - 1) - 1 + 1 = - int (f - 1)"
    using f(1) by simp_all
  show ?thesis
  proof (cases "x * 2 ^ (f - 1) = 1")
    case True
    then have x: "x = 1 / 2 ^ (f - 1)"
      using p(1) by (simp add: field_simps)
    have c: "2 powi (- int (f - 1) + 1) = 2 * (2::rat) powi (- int (f - 1))"
      using power_int_add [of "2::rat" "- int (f - 1)" 1] by simp
    from True have e: "ilog2 x = - int (f - 1)" using il by simp
    have A: "2 powi (ilog2 x) = 1 / (2::rat) ^ (f - 1)"
      unfolding e by (rule b)
    have B: "2 powi (ilog2 x + 1) = 2 * (1 / (2::rat) ^ (f - 1))"
      unfolding e c b by (rule refl)
    have q: "0 < 1 / (2::rat) ^ (f - 1)" by simp
    show ?thesis
      unfolding A B using x q by linarith
  next
    case False
    then have "x \<noteq> 1 / 2 ^ (f - 1)"
      using p(1) by (simp add: field_simps)
    with lo' have "x < 1 / 2 ^ (f - 1)" by simp
    note up = this
    from False have e: "ilog2 x = - int f" using il e1(1) by simp
    have A: "2 powi (ilog2 x) = 1 / (2::rat) ^ f"
      unfolding e by (rule a)
    have "ilog2 x + 1 = - int (f - 1)" using e f(1) by simp
    then have B: "2 powi (ilog2 x + 1) = 1 / (2::rat) ^ (f - 1)"
      using b by simp
    show ?thesis
      unfolding A B using up hi' by linarith
  qed
qed

lemma ilog2_bounds:
  fixes x :: rat
  assumes "0 < x"
  shows "2 powi (ilog2 x) \<le> x" and "x < 2 powi (ilog2 x + 1)"
proof -
  have "2 powi (ilog2 x) \<le> x \<and> x < 2 powi (ilog2 x + 1)"
  proof (cases "1 \<le> x")
    case True
    then show ?thesis by (rule ilog2_ge1)
  next
    case False
    then have "x < 1" by simp
    with assms show ?thesis by (rule ilog2_lt1)
  qed
  then show "2 powi (ilog2 x) \<le> x" and "x < 2 powi (ilog2 x + 1)" by simp_all
qed


lemma roundTiesToEven_error: "\<bar>of_int (roundTiesToEven y) - y\<bar> \<le> 1 / 2"
proof -
  have "of_int \<lfloor>y\<rfloor> \<le> y" "y < of_int \<lfloor>y\<rfloor> + 1"
    using floor_correct [of y] by simp_all
  then show ?thesis
    by (simp add: roundTiesToEven_def Let_def abs_le_iff)
qed

lemma roundTiesToEven_near:
  assumes "of_int n \<le> y" "y < of_int n + 1 / 2"
  shows "roundTiesToEven y = n"
proof -
  have "\<lfloor>y\<rfloor> = n"
    using assms by (intro floor_unique) simp_all
  with assms show ?thesis
    by (simp add: roundTiesToEven_def Let_def)
qed

lemma ulp_pos: "0 < ulp x"
  by (simp add: ulp_def)

lemma ulp_split: "ulp x * 2 ^ 52 = 2 powi (ilog2 \<bar>x\<bar>)"
proof -
  have "(2::rat) powi (ilog2 \<bar>x\<bar> - 52) * 2 powi 52 = 2 powi (ilog2 \<bar>x\<bar> - 52 + 52)"
    by (rule power_int_add [symmetric]) simp
  then show ?thesis by (simp add: ulp_def)
qed

lemma ulp_bounds:
  assumes "x \<noteq> 0"
  shows "ulp x * 2 ^ 52 \<le> \<bar>x\<bar>" "\<bar>x\<bar> < ulp x * 2 ^ 53"
proof -
  have pos: "0 < \<bar>x\<bar>" using assms by simp
  show "ulp x * 2 ^ 52 \<le> \<bar>x\<bar>"
    unfolding ulp_split using ilog2_bounds(1) [OF pos] .
  have "(2::rat) powi (ilog2 \<bar>x\<bar> + 1) = 2 powi (ilog2 \<bar>x\<bar>) * 2 powi 1"
    by (rule power_int_add) simp
  then have "(2::rat) powi (ilog2 \<bar>x\<bar> + 1) = ulp x * 2 ^ 53"
    using ulp_split [of x] by simp
  then show "\<bar>x\<bar> < ulp x * 2 ^ 53"
    using ilog2_bounds(2) [OF pos] by simp
qed

lemma fl_error:
  "\<bar>fl x - x\<bar> * 2 ^ 53 \<le> \<bar>x\<bar>"
proof (cases "x = 0")
  case True
  then show ?thesis by (simp add: fl_def)
next
  case False
  define u where "u = ulp x"
  define r where "r = rat_of_int (roundTiesToEven (x / u))"
  have u: "0 < u" by (simp add: u_def ulp_pos)
  have "\<bar>r - x / u\<bar> \<le> 1 / 2"
    unfolding r_def by (rule roundTiesToEven_error)
  then have "\<bar>r - x / u\<bar> * u \<le> 1 / 2 * u"
    using u by (intro mult_right_mono) simp_all
  moreover have "\<bar>r - x / u\<bar> * u = \<bar>r * u - x\<bar>"
  proof -
    have "\<bar>r - x / u\<bar> * u = \<bar>(r - x / u) * u\<bar>"
      using u by (simp add: abs_mult)
    also have "(r - x / u) * u = r * u - x"
      using u by (simp add: field_simps)
    finally show ?thesis .
  qed
  ultimately have "\<bar>r * u - x\<bar> \<le> u / 2" by simp
  moreover have "u * 2 ^ 52 \<le> \<bar>x\<bar>"
    using ulp_bounds(1) [OF False] by (simp add: u_def)
  moreover have "fl x = r * u"
    using False by (simp add: fl_def r_def u_def)
  ultimately show ?thesis by simp
qed

lemma ulp_inverse_power:
  assumes "x \<noteq> 0" "\<bar>x\<bar> < 2 ^ 53"
  obtains m :: nat where "ulp x * 2 ^ m = 1"
proof -
  have pos: "0 < \<bar>x\<bar>" using assms by simp
  have "(2::rat) powi (ilog2 \<bar>x\<bar>) < 2 powi 53"
    using ilog2_bounds(1) [OF pos] assms(2) by simp
  then have "ilog2 \<bar>x\<bar> < 53"
    by (rule power_int_le_imp_less_exp [rotated]) simp_all
  then have e: "0 \<le> 52 - ilog2 \<bar>x\<bar>" by simp
  have "(2::rat) powi (ilog2 \<bar>x\<bar> - 52) * 2 powi (52 - ilog2 \<bar>x\<bar>)
          = 2 powi (ilog2 \<bar>x\<bar> - 52 + (52 - ilog2 \<bar>x\<bar>))"
    by (rule power_int_add [symmetric]) simp
  then have "ulp x * 2 ^ nat (52 - ilog2 \<bar>x\<bar>) = 1"
    using e by (simp add: ulp_def power_int_nonneg_exp)
  then show ?thesis by (rule that)
qed

lemma fl_near_int:
  assumes "x \<noteq> 0" "\<bar>x\<bar> < 2 ^ 53" "of_int n \<le> x" "(x - of_int n) * 2 ^ 54 \<le> \<bar>x\<bar>"
  shows "fl x = of_int n"
proof -
  obtain m :: nat where m: "ulp x * 2 ^ m = 1"
    using ulp_inverse_power [OF assms(1,2)] .
  define P where "P = (2::rat) ^ m"
  have P: "0 < P" "ulp x * P = 1" by (simp_all add: P_def m)
  have u: "ulp x = 1 / P" using P by (simp add: field_simps)
  have q: "x / ulp x = x * P" unfolding u by simp
  have "\<bar>x\<bar> < ulp x * 2 ^ 53" by (rule ulp_bounds(2) [OF assms(1)])
  then have "\<bar>x\<bar> * P < ulp x * 2 ^ 53 * P"
    using P(1) by (intro mult_strict_right_mono)
  also have "ulp x * 2 ^ 53 * P = 2 ^ 53" unfolding u using P(1) by simp
  finally have c: "\<bar>x\<bar> * P < 2 ^ 53" .
  have "(x - of_int n) * 2 ^ 54 * P \<le> \<bar>x\<bar> * P"
    using assms(4) P(1) by (intro mult_right_mono) simp_all
  then have d: "(x * P - of_int n * P) * 2 ^ 54 \<le> \<bar>x\<bar> * P"
    by (simp add: algebra_simps)
  have lo: "of_int n * P \<le> x * P"
    using assms(3) P(1) by (intro mult_right_mono) simp_all
  have N: "of_int n * P = rat_of_int (n * 2 ^ m)" by (simp add: P_def)
  have "roundTiesToEven (x * P) = n * 2 ^ m"
  proof (rule roundTiesToEven_near)
    show "rat_of_int (n * 2 ^ m) \<le> x * P" using lo N by simp
    show "x * P < rat_of_int (n * 2 ^ m) + 1 / 2"
      using c d unfolding N by simp
  qed
  then have "fl x = rat_of_int (n * 2 ^ m) * (1 / P)"
    using assms(1) unfolding fl_def q unfolding u by simp
  also have "\<dots> = of_int n"
    using P(1) by (simp add: P_def)
  finally show ?thesis .
qed

lemma fl_of_int:
  assumes "\<bar>n\<bar> < 2 ^ 53"
  shows "fl (of_int n) = of_int n"
proof (cases "n = 0")
  case True
  then show ?thesis by (simp add: fl_def)
next
  case False
  have "\<bar>rat_of_int n\<bar> < 2 ^ 53"
  proof -
    have "rat_of_int \<bar>n\<bar> < rat_of_int (2 ^ 53)"
      using assms by (simp only: of_int_less_iff)
    then show ?thesis by simp
  qed
  then show ?thesis
    using False by (intro fl_near_int) simp_all
qed

lemma fl_fifth: "fl (1 / 5) = 3602879701896397 / 18014398509481984"
  by code_simp


lemma fifth_product:
  assumes "0 \<le> sz" "sz < 2 ^ 48"
  defines "y \<equiv> fmul (fl (1 / 5)) (of_int sz)"
  shows "sz mod 5 = 0 \<Longrightarrow> y = of_int (sz div 5)"
    and "sz mod 5 \<noteq> 0 \<Longrightarrow> of_int (sz div 5) + 3 / 20 < y \<and> y < of_int (sz div 5) + 17 / 20"
proof -
  define k where "k = sz div 5"
  define r where "r = sz mod 5"
  define x where "x = 3602879701896397 / 18014398509481984 * rat_of_int sz"
  have y: "y = fl x" by (simp add: y_def fmul_def fl_fifth x_def)
  have "sz = 5 * k + r" by (simp add: k_def r_def)
  then have "rat_of_int sz = rat_of_int (5 * k + r)" by simp
  then have sz: "rat_of_int sz = 5 * of_int k + of_int r" by simp
  have r: "0 \<le> rat_of_int r" "rat_of_int r \<le> 4"
  proof -
    have "0 \<le> r" "r \<le> 4" by (simp_all add: r_def)
    then have "rat_of_int 0 \<le> of_int r" "rat_of_int r \<le> of_int 4"
      by (simp_all only: of_int_le_iff)
    then show "0 \<le> rat_of_int r" "rat_of_int r \<le> 4" by simp_all
  qed
  have k: "0 \<le> rat_of_int k" using assms(1) by (simp add: k_def)
  have "rat_of_int sz < rat_of_int (2 ^ 48)"
    using assms(2) by (simp only: of_int_less_iff)
  then have szb: "rat_of_int sz < 281474976710656" by simp
  have sz0: "0 \<le> rat_of_int sz" using assms(1) by simp
  have err: "\<bar>fl x - x\<bar> * 2 ^ 53 \<le> \<bar>x\<bar>" by (rule fl_error)
  {
    assume "sz mod 5 = 0"
    then have r0: "rat_of_int r = 0" by (simp add: r_def)
    show "y = of_int (sz div 5)"
    proof (cases "k = 0")
      case True
      then have "x = 0" using sz r0 by (simp add: x_def)
      then show ?thesis using True by (simp add: y fl_def k_def)
    next
      case False
      then have "1 \<le> k" using k by simp
      then have "rat_of_int 1 \<le> of_int k" by (simp only: of_int_le_iff)
      then have k1: "1 \<le> rat_of_int k" by simp
      have "fl x = of_int k"
      proof (rule fl_near_int)
        show "x \<noteq> 0" using k1 sz r0 by (simp add: x_def)
        show "\<bar>x\<bar> < 2 ^ 53" using sz0 szb by (simp add: x_def)
        show "rat_of_int k \<le> x" using k1 sz r0 by (simp add: x_def)
        show "(x - rat_of_int k) * 2 ^ 54 \<le> \<bar>x\<bar>" using k1 sz r0 by (simp add: x_def)
      qed
      then show ?thesis by (simp add: y k_def)
    qed
  }
  {
    assume "sz mod 5 \<noteq> 0"
    moreover have "0 \<le> sz mod 5" by simp
    ultimately have "1 \<le> r" unfolding r_def by linarith
    then have "rat_of_int 1 \<le> of_int r" by (simp only: of_int_le_iff)
    then have r1: "1 \<le> rat_of_int r" by simp
    have x0: "0 \<le> x" using sz0 by (simp add: x_def)
    have e: "(fl x - x) * 9007199254740992 \<le> x" "(x - fl x) * 9007199254740992 \<le> x"
      using err x0 by (simp_all add: abs_if split: if_splits)
    have xs: "x * 18014398509481984 = 18014398509481985 * rat_of_int k + 3602879701896397 * rat_of_int r"
      unfolding x_def sz by (simp add: algebra_simps)
    have kb: "5 * rat_of_int k + rat_of_int r < 281474976710656"
      using szb unfolding sz .
    have x_lo: "rat_of_int k + 1 / 5 \<le> x"
      using xs r1 k by linarith
    have x_hi: "x \<le> rat_of_int k + 4 / 5 + 1 / 320"
      using xs kb r(2) by linarith
    have x_ub: "x \<le> 281474976710656"
      using xs kb by linarith
    have e': "9007199254740992 * fl x - 9007199254740992 * x \<le> x"
        "9007199254740992 * x - 9007199254740992 * fl x \<le> x"
      using e by (simp_all add: algebra_simps)
    have d: "fl x - x \<le> 1 / 32" "x - fl x \<le> 1 / 32"
    proof -
      show "fl x - x \<le> 1 / 32" using e'(1) x_ub by linarith
      show "x - fl x \<le> 1 / 32" using e'(2) x_ub by linarith
    qed
    have "rat_of_int k + 3 / 20 < fl x \<and> fl x < rat_of_int k + 17 / 20"
      using d x_lo x_hi by linarith
    then show "of_int (sz div 5) + 3 / 20 < y \<and> y < of_int (sz div 5) + 17 / 20"
      by (simp add: y k_def)
  }
qed

lemma int_bound_rat:
  "(n::int) < 2 ^ 48 \<Longrightarrow> rat_of_int n < 281474976710656"
  "0 \<le> n \<Longrightarrow> 0 \<le> rat_of_int n"
proof -
  assume "n < 2 ^ 48"
  then have "rat_of_int n < rat_of_int (2 ^ 48)" by (simp only: of_int_less_iff)
  then show "rat_of_int n < 281474976710656" by simp
next
  assume "0 \<le> n"
  then show "0 \<le> rat_of_int n" by simp
qed

lemma fifth_split:
  fixes sz :: int
  shows "rat_of_int sz = 5 * rat_of_int (sz div 5) + rat_of_int (sz mod 5)"
proof -
  have "sz = 5 * (sz div 5) + sz mod 5" by simp
  then have "rat_of_int sz = rat_of_int (5 * (sz div 5) + sz mod 5)" by simp
  then show ?thesis by (simp only: of_int_add of_int_mult of_int_numeral)
qed

lemma fifth_remainder:
  fixes sz :: int
  assumes "sz mod 5 \<noteq> 0"
  shows "1 \<le> rat_of_int (sz mod 5)" "rat_of_int (sz mod 5) \<le> 4"
proof -
  have "0 \<le> sz mod 5" "sz mod 5 < 5" by simp_all
  with assms have "1 \<le> sz mod 5" "sz mod 5 \<le> 4" by linarith+
  then have "rat_of_int 1 \<le> of_int (sz mod 5)" "rat_of_int (sz mod 5) \<le> of_int 4"
    by (simp_all only: of_int_le_iff)
  then show "1 \<le> rat_of_int (sz mod 5)" "rat_of_int (sz mod 5) \<le> 4" by simp_all
qed

lemma abs_le_both:
  fixes a b :: rat
  shows "\<bar>a\<bar> \<le> b \<Longrightarrow> a \<le> b" "\<bar>a\<bar> \<le> b \<Longrightarrow> - a \<le> b"
  by linarith+

lemma sixteenth:
  fixes a b :: rat
  shows "9007199254740992 * a \<le> b \<Longrightarrow> b \<le> 562949953421312 \<Longrightarrow> a \<le> 1 / 16"
  by linarith

lemma backwardThreshold_exact:
  assumes "0 \<le> sz" "sz < 2 ^ 48"
  shows "backwardThreshold sz = \<lfloor>2 / 10 * rat_of_int sz\<rfloor>"
proof (cases "sz mod 5 = 0")
  case True
  have "rat_of_int sz = 5 * rat_of_int (sz div 5)"
    using fifth_split [of sz] True by simp
  then have "2 / 10 * rat_of_int sz = rat_of_int (sz div 5)" by simp
  then show ?thesis
    using fifth_product(1) [OF assms True] by (simp add: backwardThreshold_def)
next
  case False
  note y = fifth_product(2) [OF assms False]
  note r = fifth_remainder [OF False]
  have "backwardThreshold sz = sz div 5"
    unfolding backwardThreshold_def using y by (intro floor_unique) linarith+
  moreover have "\<lfloor>2 / 10 * rat_of_int sz\<rfloor> = sz div 5"
    using fifth_split [of sz] r by (intro floor_unique) linarith+
  ultimately show ?thesis by simp
qed

lemma forward_floor_exact:
  assumes "0 \<le> sz" "sz < 2 ^ 48" "0 \<le> len" "len < 2 ^ 48"
  shows "\<lfloor>fsub (of_int len) (fmul (fl (1 / 5)) (of_int sz))\<rfloor>
           = \<lfloor>rat_of_int len - 2 / 10 * rat_of_int sz\<rfloor>"
proof (cases "sz mod 5 = 0")
  case True
  have sz: "rat_of_int sz = 5 * rat_of_int (sz div 5)"
    using fifth_split [of sz] True by simp
  have k: "0 \<le> sz div 5" "sz div 5 \<le> sz" using assms(1) by simp_all
  have "\<bar>len - sz div 5\<bar> < 2 ^ 53"
    using k assms by simp
  then have "fl (rat_of_int (len - sz div 5)) = of_int (len - sz div 5)"
    by (rule fl_of_int)
  then have "fsub (of_int len) (fmul (fl (1 / 5)) (of_int sz)) = of_int (len - sz div 5)"
    using fifth_product(1) [OF assms(1,2) True] by (simp add: fsub_def)
  moreover have "rat_of_int len - 2 / 10 * rat_of_int sz = of_int (len - sz div 5)"
    using sz by simp
  ultimately show ?thesis by simp
next
  case False
  define y where "y = fmul (fl (1 / 5)) (rat_of_int sz)"
  define z where "z = rat_of_int len - y"
  have y: "rat_of_int (sz div 5) + 3 / 20 < y" "y < rat_of_int (sz div 5) + 17 / 20"
    using fifth_product(2) [OF assms(1,2) False] by (simp_all add: y_def)
  note r = fifth_remainder [OF False]
  have k: "0 \<le> rat_of_int (sz div 5)" "rat_of_int (sz div 5) < 281474976710656"
  proof -
    have "0 \<le> sz div 5" "sz div 5 < 2 ^ 48" using assms(1,2) by simp_all
    then show "0 \<le> rat_of_int (sz div 5)" "rat_of_int (sz div 5) < 281474976710656"
      using int_bound_rat [of "sz div 5"] by simp_all
  qed
  have l: "0 \<le> rat_of_int len" "rat_of_int len < 281474976710656"
    using int_bound_rat [of len] assms(3,4) by simp_all
  have "\<bar>fl z - z\<bar> * 2 ^ 53 \<le> \<bar>z\<bar>" by (rule fl_error)
  then have e: "9007199254740992 * \<bar>fl z - z\<bar> \<le> \<bar>z\<bar>" by (simp add: algebra_simps)
  have zb: "\<bar>z\<bar> \<le> 562949953421312"
    using y k l unfolding z_def by linarith
  have d: "\<bar>fl z - z\<bar> \<le> 1 / 16" using e zb by (rule sixteenth)
  have d2: "fl z - z \<le> 1 / 16" "z - fl z \<le> 1 / 16"
    using abs_le_both [OF d] by simp_all
  have c: "rat_of_int (len - sz div 5 - 1) = rat_of_int len - rat_of_int (sz div 5) - 1"
    by simp
  have zd: "z = rat_of_int len - y" by (rule z_def)
  have "\<lfloor>fl z\<rfloor> = len - sz div 5 - 1"
  proof (rule floor_unique)
    show "rat_of_int (len - sz div 5 - 1) \<le> fl z"
      unfolding c using d2 y zd by linarith
    show "fl z < rat_of_int (len - sz div 5 - 1) + 1"
      unfolding c using d2 y zd by linarith
  qed
  moreover have "\<lfloor>rat_of_int len - 2 / 10 * rat_of_int sz\<rfloor> = len - sz div 5 - 1"
  proof (rule floor_unique)
    show "rat_of_int (len - sz div 5 - 1) \<le> rat_of_int len - 2 / 10 * rat_of_int sz"
      unfolding c using fifth_split [of sz] r by linarith
    show "rat_of_int len - 2 / 10 * rat_of_int sz < rat_of_int (len - sz div 5 - 1) + 1"
      unfolding c using fifth_split [of sz] r by linarith
  qed
  ultimately show ?thesis by (simp add: fsub_def z_def y_def)
qed

section \<open>Basic facts\<close>

lemma offset_effects_fields [simp]:
  "data (offset_effects sz b s) = data s"
  "prevOffset (offset_effects sz b s) = prevOffset s"
  "nextOffset (offset_effects sz b s) = nextOffset s"
  "dataFinished (offset_effects sz b s) = dataFinished s"
  "fetchDataForward (offset_effects sz b s) = fetchDataForward s"
  "fetchDataBackward (offset_effects sz b s) = fetchDataBackward s"
  by (simp_all add: offset_effects_def start_fetch_def Let_def)

lemma run_append: "run sz lc (xs @ ys) s = run sz lc ys (run sz lc xs s)"
  by (induction xs arbitrary: s) simp_all

lemma slice_from_neg:
  "0 < m \<Longrightarrow> m < int (length xs) \<Longrightarrow> slice_from (- m) xs = drop (nat (int (length xs) - m)) xs"
  by (simp add: slice_from_def Let_def)

lemma slice_upto_nonneg:
  "0 \<le> m \<Longrightarrow> m < int (length xs) \<Longrightarrow> slice_upto m xs = take (nat m) xs"
  by (simp add: slice_upto_def Let_def)

lemma length_slice_from_neg: "0 < m \<Longrightarrow> int (length (slice_from (- m) xs)) \<le> m"
  by (simp add: slice_from_def Let_def)

lemma length_slice_upto: "0 \<le> m \<Longrightarrow> int (length (slice_upto m xs)) \<le> m"
  by (simp add: slice_upto_def Let_def)

text \<open>
  With a page size of zero the forward trim keeps everything: \<open>slice(-0)\<close> is \<open>slice(0)\<close>.
  The page size is therefore taken positive wherever the trim matters.
\<close>

lemma slice_from_zero: "slice_from (- 0) xs = xs"
  by (simp add: slice_from_def)

section \<open>The next backward offset\<close>

lemma updater_nonneg: "setPrevOffset_updater sz d prev = Some v \<Longrightarrow> 0 \<le> v"
  by (auto simp add: setPrevOffset_updater_def math_max0_def Let_def)

lemma updater_remainder_zero:
  "0 < sz \<Longrightarrow> int (length xs) mod sz = 0 \<Longrightarrow>
   setPrevOffset_updater sz (Some xs) (Some prev) = Some (max 0 (prev - sz))"
  by (simp add: setPrevOffset_updater_def js_rem_def data_length_def num_sub_def
      math_max0_def Let_def)

lemma updater_remainder_nonzero:
  "0 < sz \<Longrightarrow> int (length xs) mod sz \<noteq> 0 \<Longrightarrow>
   setPrevOffset_updater sz (Some xs) (Some prev) =
     Some (max 0 (prev - (int (length xs) - (int (length xs) mod sz) * sz)))"
  by (auto simp add: setPrevOffset_updater_def js_rem_def data_length_def num_sub_def num_mul_def
      math_max0_def Let_def)

text \<open>
  Claim C1. The next backward offset is \<open>max(0, prevOffset - P)\<close> when \<open>L mod P = 0\<close> and
  \<open>max(0, prevOffset - (L - L mod P))\<close> otherwise. The first case and the lower bound hold
  (\<open>updater_remainder_zero\<close>, \<open>updater_nonneg\<close>). In the second case the source subtracts
  \<open>L - (L mod P) * P\<close>: for a window of 15 items, page size 10 and backward offset 10 the
  updater returns 45, where the claim gives 0.
\<close>

theorem updater_at_15_10_10:
  "setPrevOffset_updater 10 (Some (replicate 15 ())) (Some 10) = Some 45
   \<and> max 0 (10 - (15 - 15 mod 10)) = (0::int)"
  by (simp add: setPrevOffset_updater_def js_rem_def data_length_def num_sub_def num_mul_def
      math_max0_def Let_def)

text \<open>
  The input of that evaluation arises in a run of the component with page size 10: three forward
  fetches overlap, the third settles before the second, and the second brings the short last
  page. The window then holds 15 items behind a backward offset of 10, the upper marker is
  rendered, and its intersection asks \<open>fetchData\<close> for offset 45.
\<close>

lemma updater_input_reachable:
  "run 10 True
     [FetchDataChanged, InitialSettled (Resolved (Some [1 .. 10])),
      LowerIntersecting, LowerIntersecting,
      ForwardSettled (Some [1 .. 10]) (Resolved (Some [11 .. 20])),
      LowerIntersecting,
      ForwardSettled (Some [1 .. 20]) (Resolved (Some [31 .. 40])),
      ForwardSettled (Some [1 .. 10]) (Resolved (Some [21 .. 25])),
      UpperIntersecting] initial_component
   = \<lparr>prevOffset = Some 45, nextOffset = 30, fetchDataForward = False,
       fetchDataBackward = True, dataFinished = True,
       data = Some [1, 2, 3, 4, 5, 6, 7, 8, 9, 10, 21, 22, 23, 24, 25], loading = True,
       fetchCalls = [(Initial, 10, Some 0), (Forward, 10, Some 10), (Forward, 10, Some 20),
         (Forward, 10, Some 30), (Backward, 10, Some 45)]\<rparr>"
  by code_simp

section \<open>Merging a fetched page\<close>

lemma forward_settled_bound:
  "0 < sz \<Longrightarrow> int (length (window (data (forward_settled sz d (Resolved m) s)))) \<le> 2 * sz"
  using length_slice_from_neg [of "sz * 2" "window d @ window m"]
  by (simp add: forward_settled_def handleExcessData_forward_def maxNumberOfElements_def
      Let_def window_def)

lemma backward_settled_bound:
  "0 < sz \<Longrightarrow> int (length (window (data (backward_settled sz d (Resolved m) s)))) \<le> 2 * sz"
  using length_slice_upto [of "sz * 2" "window m @ window d"]
  by (cases m) (simp_all add: backward_settled_def handleExcessData_backward_def
      maxNumberOfElements_def Let_def window_def)

text \<open>
  Claim C2. For a positive page size, after any sequence of events that ends with a forward or
  backward merge, the window holds at most \<open>2 * size\<close> items. The events before the merge are
  arbitrary, so the bound holds after every merge of every sequence.
\<close>

theorem window_bound:
  assumes "0 < sz" and "merge_event ev"
  shows "int (length (window (data (run sz loaderComponent (evs @ [ev]) s)))) \<le> 2 * sz"
proof (cases ev)
  case (ForwardSettled d r)
  with assms(2) obtain m where "r = Resolved m"
    by (cases r) (simp_all add: merge_event_def)
  with ForwardSettled assms(1) show ?thesis
    by (simp add: run_append step_def forward_settled_bound)
next
  case (BackwardSettled d r)
  with assms(2) obtain m where "r = Resolved m"
    by (cases r) (simp_all add: merge_event_def)
  with BackwardSettled assms(1) show ?thesis
    by (simp add: run_append step_def backward_settled_bound)
qed (use assms(2) in \<open>simp_all add: merge_event_def\<close>)

theorem window_bound_witness:
  "(0::int) < 2
   \<and> merge_event (ForwardSettled (Some [1, 2, 3 :: nat]) (Resolved (Some [4, 5])))
   \<and> int (length (window (data (run 2 True
        ([BackwardSettled (Some [3]) (Resolved (Some [1, 2]))]
         @ [ForwardSettled (Some [1, 2, 3 :: nat]) (Resolved (Some [4, 5]))])
        initial_component)))) \<le> 2 * 2"
  using window_bound [of 2 "ForwardSettled (Some [1, 2, 3 :: nat]) (Resolved (Some [4, 5]))"
      True "[BackwardSettled (Some [3]) (Resolved (Some [1, 2]))]" initial_component]
  by (simp add: merge_event_def)

text \<open>
  Claim C4. A forward merge appends the fetched items to the window the fetch started from.
  When the result is longer than \<open>2 * size\<close>, the leading \<open>excess = length - 2 * size\<close>
  items are dropped, \<open>2 * size\<close> items remain and \<open>prevOffset\<close> grows by \<open>excess\<close>;
  otherwise the result is stored as it is and \<open>prevOffset\<close> keeps its value.
\<close>

theorem forward_merge:
  assumes "0 < sz"
    and "newData = window d @ window moreData"
    and "excess = int (length newData) - 2 * sz"
    and "s' = step sz loaderComponent (ForwardSettled d (Resolved moreData)) s"
  shows "(0 < excess \<longrightarrow>
            data s' = Some (drop (nat excess) newData)
          \<and> int (length (drop (nat excess) newData)) = 2 * sz
          \<and> prevOffset s' = num_add (prevOffset s) (Some excess))
       \<and> (excess \<le> 0 \<longrightarrow> data s' = Some newData \<and> prevOffset s' = prevOffset s)"
  using assms
  by (auto simp add: step_def forward_settled_def handleExcessData_forward_def
      maxNumberOfElements_def slice_from_neg Let_def mult.commute [of sz 2])

theorem forward_merge_witness:
  "(0::int) < 2
   \<and> data (step 2 True (ForwardSettled (Some [1, 2, 3 :: nat]) (Resolved (Some [4, 5])))
        initial_component) = Some [2, 3, 4, 5]
   \<and> prevOffset (step 2 True (ForwardSettled (Some [1, 2, 3 :: nat]) (Resolved (Some [4, 5])))
        initial_component) = Some 1
   \<and> data (step 2 True (ForwardSettled (Some [1, 2 :: nat]) (Resolved (Some [3])))
        initial_component) = Some [1, 2, 3]
   \<and> prevOffset (step 2 True (ForwardSettled (Some [1, 2 :: nat]) (Resolved (Some [3])))
        initial_component) = Some 0"
  using forward_merge [of 2 "[1, 2, 3, 4, 5 :: nat]" "Some [1, 2, 3]" "Some [4, 5]" 1
      "step 2 True (ForwardSettled (Some [1, 2, 3]) (Resolved (Some [4, 5]))) initial_component"
      True initial_component]
    forward_merge [of 2 "[1, 2, 3 :: nat]" "Some [1, 2]" "Some [3]" "- 1"
      "step 2 True (ForwardSettled (Some [1, 2]) (Resolved (Some [3]))) initial_component"
      True initial_component]
  by (simp add: window_def num_add_def initial_component_def)

text \<open>
  Claim C5. A backward merge puts the fetched items in front of the window the fetch started
  from. When the result is longer than \<open>2 * size\<close>, the leading \<open>2 * size\<close> items are kept
  and \<open>nextOffset\<close> shrinks by the number of items dropped at the end; otherwise the result
  is stored as it is and \<open>nextOffset\<close> keeps its value.
\<close>

theorem backward_merge:
  assumes "0 \<le> sz"
    and "newData = window moreData @ window d"
    and "excess = int (length newData) - 2 * sz"
    and "s' = step sz loaderComponent (BackwardSettled d (Resolved moreData)) s"
  shows "(0 < excess \<longrightarrow>
            data s' = Some (take (nat (2 * sz)) newData)
          \<and> int (length (take (nat (2 * sz)) newData)) = 2 * sz
          \<and> nextOffset s' = nextOffset s - excess)
       \<and> (excess \<le> 0 \<longrightarrow> data s' = Some newData \<and> nextOffset s' = nextOffset s)"
  using assms
  by (auto simp add: step_def backward_settled_def handleExcessData_backward_def
      maxNumberOfElements_def slice_upto_nonneg Let_def mult.commute [of sz 2]
      split: option.splits)

theorem backward_merge_witness:
  "(0::int) \<le> 2
   \<and> data (step 2 True (BackwardSettled (Some [3, 4, 5 :: nat]) (Resolved (Some [1, 2])))
        initial_component) = Some [1, 2, 3, 4]
   \<and> nextOffset (step 2 True (BackwardSettled (Some [3, 4, 5 :: nat]) (Resolved (Some [1, 2])))
        initial_component) = - 1
   \<and> data (step 2 True (BackwardSettled (Some [2, 3 :: nat]) (Resolved (Some [1])))
        initial_component) = Some [1, 2, 3]
   \<and> nextOffset (step 2 True (BackwardSettled (Some [2, 3 :: nat]) (Resolved (Some [1])))
        initial_component) = 0"
  using backward_merge [of 2 "[1, 2, 3, 4, 5 :: nat]" "Some [1, 2]" "Some [3, 4, 5]" 1
      "step 2 True (BackwardSettled (Some [3, 4, 5]) (Resolved (Some [1, 2]))) initial_component"
      True initial_component]
    backward_merge [of 2 "[1, 2, 3 :: nat]" "Some [1]" "Some [2, 3]" "- 1"
      "step 2 True (BackwardSettled (Some [2, 3]) (Resolved (Some [1]))) initial_component"
      True initial_component]
  by (simp add: window_def initial_component_def)

section \<open>Exhaustion of the source\<close>

lemma finished_no_lower_target:
  "dataFinished s \<Longrightarrow> \<not> rendered LowerTarget sz lc s"
  by (auto simp add: rendered_def render_def render_element_def Let_def split: if_splits)

lemma offset_effects_forward_calls:
  "\<not> fetchDataForward s' \<Longrightarrow> forward_calls (offset_effects sz s s') = forward_calls s'"
  by (simp add: offset_effects_def start_fetch_def forward_calls_def Let_def)

lemma forward_settled_fields:
  "fetchCalls (forward_settled sz d r s) = fetchCalls s"
  "r = Resolved m \<Longrightarrow> \<not> fetchDataForward (forward_settled sz d r s)"
  "r = Rejected \<Longrightarrow> forward_settled sz d r s = s"
  "dataFinished s \<Longrightarrow> dataFinished (forward_settled sz d r s)"
  by (cases r; simp add: forward_settled_def handleExcessData_forward_def Let_def split: prod.splits if_splits)+

lemma backward_settled_fields:
  "fetchCalls (backward_settled sz d r s) = fetchCalls s"
  "fetchDataForward (backward_settled sz d r s) = fetchDataForward s"
  "dataFinished (backward_settled sz d r s) = dataFinished s"
  by (cases r; simp add: backward_settled_def handleExcessData_backward_def Let_def split: prod.splits if_splits option.splits)+

lemma upper_intersecting_fields:
  "fetchCalls (upper_intersecting sz s) = fetchCalls s"
  "\<not> fetchDataForward (upper_intersecting sz s)"
  "dataFinished (upper_intersecting sz s) = dataFinished s"
  by (simp_all add: upper_intersecting_def)

lemma finished_step:
  assumes "dataFinished s" and "\<not> fetchDataForward s" and "\<not> reset_event ev"
  shows "dataFinished (step sz lc ev s) \<and> \<not> fetchDataForward (step sz lc ev s)
       \<and> forward_calls (step sz lc ev s) = forward_calls s"
proof (cases ev)
  case FetchDataChanged
  with assms show ?thesis by (simp add: reset_event_def)
next
  case (InitialSettled r)
  with assms show ?thesis by (simp add: reset_event_def)
next
  case LowerIntersecting
  with assms finished_no_lower_target [of s sz lc] show ?thesis by (simp add: step_def)
next
  case UpperIntersecting
  with assms show ?thesis
    by (simp add: step_def upper_intersecting_fields offset_effects_forward_calls)
       (simp add: forward_calls_def upper_intersecting_fields)
next
  case (ForwardSettled d r)
  show ?thesis
  proof (cases r)
    case Rejected
    with ForwardSettled assms show ?thesis
      by (simp add: step_def forward_settled_fields offset_effects_forward_calls)
  next
    case (Resolved m)
    with ForwardSettled assms show ?thesis
      by (simp add: step_def forward_settled_fields offset_effects_forward_calls)
         (simp add: forward_calls_def forward_settled_fields)
  qed
next
  case (BackwardSettled d r)
  with assms show ?thesis
    by (simp add: step_def backward_settled_fields offset_effects_forward_calls)
       (simp add: forward_calls_def backward_settled_fields)
qed

lemma finished_run:
  "dataFinished s \<Longrightarrow> \<not> fetchDataForward s \<Longrightarrow> list_all (\<lambda>ev. \<not> reset_event ev) evs \<Longrightarrow>
   dataFinished (run sz lc evs s) \<and> forward_calls (run sz lc evs s) = forward_calls s"
proof (induction evs arbitrary: s)
  case Nil
  then show ?case by simp
next
  case (Cons ev evs)
  from Cons.prems have step: "dataFinished (step sz lc ev s)" "\<not> fetchDataForward (step sz lc ev s)"
      "forward_calls (step sz lc ev s) = forward_calls s"
    using finished_step [of s ev sz lc] by simp_all
  from Cons.prems have "list_all (\<lambda>ev. \<not> reset_event ev) evs" by simp
  with Cons.IH [OF step(1) step(2)] step(3) show ?case by simp
qed

lemma short_page_finishes:
  "int (length xs) < sz \<Longrightarrow>
   dataFinished (step sz lc (ForwardSettled d (Resolved (Some xs))) s)
   \<and> \<not> fetchDataForward (step sz lc (ForwardSettled d (Resolved (Some xs))) s)"
  by (simp add: step_def forward_settled_def handleExcessData_forward_def num_less_def
      data_length_def Let_def split: prod.splits)

text \<open>
  Claim C3. When a forward fetch resolves with fewer than \<open>size\<close> items, \<open>dataFinished\<close> is
  set. From then on, through any events other than a reset (crossings of either boundary and
  settlements of fetches still under way, in any number and order), \<open>dataFinished\<close> stays set
  and the forward fetch effect makes no further call of \<open>fetchData\<close>: the lower marker is not
  rendered, so no forward crossing is observed, and a change of \<open>nextOffset\<close> by a backward
  trim finds \<open>fetchDataForward\<close> cleared.
\<close>

theorem exhaustion_stable:
  assumes "int (length xs) < sz"
    and "s1 = step sz loaderComponent (ForwardSettled d (Resolved (Some xs))) s"
    and "list_all (\<lambda>ev. \<not> reset_event ev) evs"
  shows "dataFinished s1
       \<and> dataFinished (run sz loaderComponent evs s1)
       \<and> forward_calls (run sz loaderComponent evs s1) = forward_calls s1"
  using short_page_finishes [OF assms(1), of loaderComponent d s] assms(2)
    finished_run [of s1 evs sz loaderComponent] assms(3)
  by simp

theorem exhaustion_stable_witness:
  "int (length [11, 12, 13, 14, 15 :: int]) < 10
   \<and> list_all (\<lambda>ev. \<not> reset_event ev)
        [LowerIntersecting, UpperIntersecting, BackwardSettled (Some [1, 2 :: int]) (Resolved None),
         LowerIntersecting]
   \<and> dataFinished (run 10 True
        [LowerIntersecting, UpperIntersecting, BackwardSettled (Some [1, 2 :: int]) (Resolved None),
         LowerIntersecting]
        (step 10 True (ForwardSettled (Some [1, 2 :: int]) (Resolved (Some [11, 12, 13, 14, 15 :: int])))
           initial_component))
   \<and> forward_calls (run 10 True
        [LowerIntersecting, UpperIntersecting, BackwardSettled (Some [1, 2 :: int]) (Resolved None),
         LowerIntersecting]
        (step 10 True (ForwardSettled (Some [1, 2 :: int]) (Resolved (Some [11, 12, 13, 14, 15 :: int])))
           initial_component))
      = forward_calls (step 10 True
          (ForwardSettled (Some [1, 2 :: int]) (Resolved (Some [11, 12, 13, 14, 15 :: int])))
          initial_component)"
  using exhaustion_stable [of "[11, 12, 13, 14, 15 :: int]" 10
      "step 10 True (ForwardSettled (Some [1, 2 :: int]) (Resolved (Some [11, 12, 13, 14, 15 :: int])))
         initial_component"
      True "Some [1, 2 :: int]" initial_component
      "[LowerIntersecting, UpperIntersecting, BackwardSettled (Some [1, 2 :: int]) (Resolved None),
        LowerIntersecting]"]
  by (simp add: reset_event_def)


section \<open>A fetch that fails\<close>










section \<open>Where the boundary markers are rendered\<close>

lemma forwardThreshold_exact:
  assumes "0 \<le> sz" "sz < 2 ^ 48" "xs \<noteq> []" "int (length xs) < 2 ^ 48"
  shows "forwardThreshold sz (Some xs) = \<lfloor>rat_of_int (int (length xs)) - 2 / 10 * rat_of_int sz\<rfloor>"
  using forward_floor_exact [OF assms(1,2) _ assms(4)] assms(3)
  by (simp add: forwardThreshold_def data_length_def)

text \<open>
  Which element carries which marker: the loader of a backward fetch takes the first element
  before any marker, and the upper marker takes an element before the lower one.
\<close>

lemma marker_placement:
  assumes "render sz loaderComponent s = Some slots" and "idx < length slots"
  shows "slots ! idx = UpperTarget \<longleftrightarrow>
           positive (prevOffset s) \<and> int idx = backwardThreshold sz
           \<and> \<not> (idx = 0 \<and> loaderComponent \<and> loading s \<and> fetchDataBackward s)"
    and "slots ! idx = LowerTarget \<longleftrightarrow>
           int idx = forwardThreshold sz (data s) \<and> \<not> dataFinished s
           \<and> \<not> (positive (prevOffset s) \<and> int idx = backwardThreshold sz)
           \<and> \<not> (idx = 0 \<and> loaderComponent \<and> loading s \<and> fetchDataBackward s)"
proof -
  from assms(1) have slots: "slots = map (render_element loaderComponent s (backwardThreshold sz)
      (forwardThreshold sz (data s))) [0..<length (window (data s))]"
    by (simp add: render_def Let_def split: if_splits)
  with assms(2) have el: "slots ! idx = render_element loaderComponent s (backwardThreshold sz)
      (forwardThreshold sz (data s)) idx"
    by simp
  show "slots ! idx = UpperTarget \<longleftrightarrow>
           positive (prevOffset s) \<and> int idx = backwardThreshold sz
           \<and> \<not> (idx = 0 \<and> loaderComponent \<and> loading s \<and> fetchDataBackward s)"
    unfolding el by (simp add: render_element_def)
  show "slots ! idx = LowerTarget \<longleftrightarrow>
           int idx = forwardThreshold sz (data s) \<and> \<not> dataFinished s
           \<and> \<not> (positive (prevOffset s) \<and> int idx = backwardThreshold sz)
           \<and> \<not> (idx = 0 \<and> loaderComponent \<and> loading s \<and> fetchDataBackward s)"
    unfolding el by (auto simp add: render_element_def)
qed

text \<open>
  Claim C8. While the list is rendered, the element at an index of the window carries the lower
  (forward) marker exactly when the index is \<open>floor(L - 0.2 * size)\<close> for the window length
  \<open>L\<close>, \<open>dataFinished\<close> is false, and the element is not already taken by the loader of a
  backward fetch or by the upper marker. It carries the upper (backward) marker exactly when
  \<open>prevOffset > 0\<close>, the index is \<open>floor(0.2 * size)\<close>, and the element is not taken by
  that loader. So the lower marker is placed at \<open>floor(L - 0.2 * size)\<close> whenever that index
  lies in the window and none of these conditions excludes it, and no upper marker is placed
  when \<open>prevOffset\<close> is zero. The floors are the exact ones: for a page size and a window
  below \<open>2 ^ 48\<close> the rounding of the doubles does not change them.
\<close>

theorem boundary_markers:
  assumes "0 \<le> sz" and "sz < 2 ^ 48" and "int (length (window (data s))) < 2 ^ 48"
    and "render sz loaderComponent s = Some slots" and "idx < length slots"
  shows "length slots = length (window (data s))
       \<and> \<not> (\<not> fetchDataForward s \<and> \<not> fetchDataBackward s \<and> loading s)
       \<and> (slots ! idx = LowerTarget \<longleftrightarrow>
            int idx = \<lfloor>rat_of_int (int (length (window (data s)))) - 2 / 10 * rat_of_int sz\<rfloor>
            \<and> \<not> dataFinished s
            \<and> \<not> (positive (prevOffset s) \<and> int idx = \<lfloor>2 / 10 * rat_of_int sz\<rfloor>)
            \<and> \<not> (idx = 0 \<and> loaderComponent \<and> loading s \<and> fetchDataBackward s))
       \<and> (slots ! idx = UpperTarget \<longleftrightarrow>
            positive (prevOffset s) \<and> int idx = \<lfloor>2 / 10 * rat_of_int sz\<rfloor>
            \<and> \<not> (idx = 0 \<and> loaderComponent \<and> loading s \<and> fetchDataBackward s))"
proof -
  from assms(4) have shown: "\<not> (\<not> fetchDataForward s \<and> \<not> fetchDataBackward s \<and> loading s)"
    by (simp add: render_def Let_def split: if_splits)
  from assms(4) have slots: "slots = map (render_element loaderComponent s (backwardThreshold sz)
      (forwardThreshold sz (data s))) [0..<length (window (data s))]"
    by (simp add: render_def Let_def split: if_splits)
  then have len: "length slots = length (window (data s))" by simp
  with assms(5) have "window (data s) \<noteq> []" by auto
  then obtain xs where xs: "data s = Some xs" "xs \<noteq> []"
    by (cases "data s") (simp_all add: window_def)
  have ft: "forwardThreshold sz (data s)
              = \<lfloor>rat_of_int (int (length (window (data s)))) - 2 / 10 * rat_of_int sz\<rfloor>"
    using forwardThreshold_exact [OF assms(1,2) xs(2)] assms(3) xs(1) by (simp add: window_def)
  have bt: "backwardThreshold sz = \<lfloor>2 / 10 * rat_of_int sz\<rfloor>"
    by (rule backwardThreshold_exact [OF assms(1,2)])
  note placed = marker_placement [OF assms(4,5)]
  from len shown placed(2) [unfolded ft bt] placed(1) [unfolded bt] show ?thesis
    by (simp only: simp_thms)
qed

lemma example_render:
  "render 10 True example_scrolled
     = Some [Element, Element, UpperTarget, Element, Element, Element, Element, Element, Element,
         Element, Element, Element, Element, Element, Element, Element, Element, Element,
         LowerTarget, Element]"
  by code_simp

theorem boundary_markers_witness:
  "(0::int) \<le> 10 \<and> (10::int) < 2 ^ 48
   \<and> int (length (window (data example_scrolled))) < 2 ^ 48
   \<and> render 10 True example_scrolled
      = Some [Element, Element, UpperTarget, Element, Element, Element, Element, Element, Element,
          Element, Element, Element, Element, Element, Element, Element, Element, Element,
          LowerTarget, Element]
   \<and> int 18 = \<lfloor>rat_of_int (int (length (window (data example_scrolled))))
                 - 2 / 10 * rat_of_int 10\<rfloor>
   \<and> \<not> dataFinished example_scrolled
   \<and> int 2 = \<lfloor>2 / 10 * rat_of_int 10\<rfloor>
   \<and> positive (prevOffset example_scrolled)"
proof -
  have l: "int (length (window (data example_scrolled))) < 2 ^ 48"
    by (simp add: example_scrolled_def window_def)
  note t18 = boundary_markers [OF _ _ l example_render, of 18]
  note t2 = boundary_markers [OF _ _ l example_render, of 2]
  have "int 18 = \<lfloor>rat_of_int (int (length (window (data example_scrolled))))
                 - 2 / 10 * rat_of_int 10\<rfloor> \<and> \<not> dataFinished example_scrolled"
    using t18 by simp
  moreover have "int 2 = \<lfloor>2 / 10 * rat_of_int 10\<rfloor> \<and> positive (prevOffset example_scrolled)"
    using t2 by simp
  ultimately show ?thesis
    using l example_render by simp
qed

text \<open>
  Claim C8 as it is written has the forward marker placed at \<open>floor(L - 0.2 * size)\<close> for
  every window. A window of one item with page size 10 has no element at that index, which is
  \<open>- 1\<close>, and when the source is exhausted the element at that index carries no marker.
\<close>

theorem no_lower_marker:
  "render 10 True (initial_component\<lparr>data := Some [()]\<rparr>) = Some [Element]
   \<and> \<lfloor>rat_of_int 1 - 2 / 10 * rat_of_int 10\<rfloor> = - 1
   \<and> render 10 False (example_scrolled\<lparr>dataFinished := True\<rparr>)
      = Some [Element, Element, UpperTarget, Element, Element, Element, Element, Element, Element,
          Element, Element, Element, Element, Element, Element, Element, Element, Element,
          Element, Element]"
  by code_simp


section \<open>The scroll adjustment\<close>

lemma abs_scale:
  fixes n q B :: rat
  assumes "\<bar>q - B\<bar> * 2 ^ 53 \<le> \<bar>B\<bar>"
  shows "\<bar>n * q - n * B\<bar> * 2 ^ 53 \<le> \<bar>n * B\<bar>"
proof -
  have "\<bar>n * q - n * B\<bar> = \<bar>n\<bar> * \<bar>q - B\<bar>"
    by (simp add: abs_mult right_diff_distrib [symmetric])
  then have "\<bar>n * q - n * B\<bar> * 2 ^ 53 = \<bar>n\<bar> * (\<bar>q - B\<bar> * 2 ^ 53)" by simp
  also have "\<dots> \<le> \<bar>n\<bar> * \<bar>B\<bar>"
    using assms by (intro mult_left_mono) simp_all
  finally show ?thesis by (simp add: abs_mult)
qed

lemma three_roundings_linear:
  fixes e1 e2 e3 A B C P G :: rat
  assumes "e1 * 9007199254740992 \<le> B" "e2 * 9007199254740992 \<le> A" "A \<le> B + e1"
    and "e3 * 9007199254740992 \<le> P" "P \<le> C + e1 + e2" "G \<le> e3 + e1 + e2"
    and "0 \<le> B" "0 \<le> e1" "0 \<le> e2" "0 \<le> e3"
  shows "G * 9007199254740992 \<le> 3 * B + C"
  using assms by linarith

lemma three_roundings:
  fixes a b p i d :: rat
  assumes "\<bar>a - b\<bar> * 2 ^ 53 \<le> \<bar>b\<bar>"
    and "\<bar>p - a\<bar> * 2 ^ 53 \<le> \<bar>a\<bar>"
    and "\<bar>d - (p - i)\<bar> * 2 ^ 53 \<le> \<bar>p - i\<bar>"
  shows "\<bar>d - (b - i)\<bar> * 2 ^ 53 \<le> 3 * \<bar>b\<bar> + \<bar>b - i\<bar>"
proof -
  have "\<bar>d - (b - i)\<bar> * 9007199254740992 \<le> 3 * \<bar>b\<bar> + \<bar>b - i\<bar>"
  proof (rule three_roundings_linear)
    show "\<bar>a - b\<bar> * 9007199254740992 \<le> \<bar>b\<bar>" using assms(1) by simp
    show "\<bar>p - a\<bar> * 9007199254740992 \<le> \<bar>a\<bar>" using assms(2) by simp
    show "\<bar>a\<bar> \<le> \<bar>b\<bar> + \<bar>a - b\<bar>" by linarith
    show "\<bar>d - (p - i)\<bar> * 9007199254740992 \<le> \<bar>p - i\<bar>" using assms(3) by simp
    show "\<bar>p - i\<bar> \<le> \<bar>b - i\<bar> + \<bar>a - b\<bar> + \<bar>p - a\<bar>" by linarith
    show "\<bar>d - (b - i)\<bar> \<le> \<bar>d - (p - i)\<bar> + \<bar>a - b\<bar> + \<bar>p - a\<bar>" by linarith
  qed simp_all
  then show ?thesis by simp
qed

lemma scrollDelta_accuracy:
  assumes "scrollDelta baseHeight maxElements prependedCount indicatorHeight = Some d"
  shows "maxElements \<noteq> 0"
    and "\<bar>d - (rat_of_int prependedCount * (baseHeight / rat_of_int maxElements) - indicatorHeight)\<bar>
           * 2 ^ 53
         \<le> 3 * \<bar>rat_of_int prependedCount * (baseHeight / rat_of_int maxElements)\<bar>
           + \<bar>rat_of_int prependedCount * (baseHeight / rat_of_int maxElements) - indicatorHeight\<bar>"
proof -
  show m: "maxElements \<noteq> 0"
    using assms by (auto simp add: scrollDelta_def fdiv_def)
  define B where "B = baseHeight / rat_of_int maxElements"
  define q where "q = fl B"
  define n where "n = rat_of_int prependedCount"
  define p where "p = fl (n * q)"
  have d: "d = fl (p - indicatorHeight)"
    using assms m by (simp add: scrollDelta_def fdiv_def fsub_def fmul_def p_def q_def n_def B_def)
  have "\<bar>q - B\<bar> * 2 ^ 53 \<le> \<bar>B\<bar>" unfolding q_def by (rule fl_error)
  then have 1: "\<bar>n * q - n * B\<bar> * 2 ^ 53 \<le> \<bar>n * B\<bar>" by (rule abs_scale)
  have 2: "\<bar>p - n * q\<bar> * 2 ^ 53 \<le> \<bar>n * q\<bar>" unfolding p_def by (rule fl_error)
  have 3: "\<bar>d - (p - indicatorHeight)\<bar> * 2 ^ 53 \<le> \<bar>p - indicatorHeight\<bar>"
    unfolding d by (rule fl_error)
  show "\<bar>d - (rat_of_int prependedCount * (baseHeight / rat_of_int maxElements) - indicatorHeight)\<bar>
           * 2 ^ 53
         \<le> 3 * \<bar>rat_of_int prependedCount * (baseHeight / rat_of_int maxElements)\<bar>
           + \<bar>rat_of_int prependedCount * (baseHeight / rat_of_int maxElements) - indicatorHeight\<bar>"
    using three_roundings [OF 1 2 3] unfolding n_def B_def .
qed

text \<open>
  Claim C6. After a backward fetch the scroll position is moved by
  \<open>prependedCount * (baseHeight / maxElements) - indicatorHeight\<close>, where \<open>baseHeight\<close> is the
  scroll height of the container less the height of the loader, \<open>maxElements\<close> is \<open>2 * size\<close>
  and \<open>prependedCount\<close> is the length of the fetched page. The quotient, the product and the
  difference are each rounded to a double, so the result is the exact value \<open>E\<close> of that
  expression up to an error of \<open>(3 * \<bar>prependedCount * (baseHeight / maxElements)\<bar> + \<bar>E\<bar>) / 2 ^ 53\<close>.
  For a base height of 1000, 60 elements, 30 fetched items and a loader of height 50 the result
  is \<open>450 + 2 powi (- 44)\<close>, which JavaScript prints as 450.00000000000006: the quotient
  \<open>1000 / 60\<close> is rounded up and the product with 30 keeps the excess.
\<close>

theorem scroll_adjustment:
  "scrollTopAdjustment sz scrollHeight offsetHeight moreData
     = scrollDelta
         (fl (rat_of_int scrollHeight - rat_of_int (case offsetHeight of None \<Rightarrow> 0 | Some h \<Rightarrow> h)))
         (2 * sz) (int (length moreData))
         (rat_of_int (case offsetHeight of None \<Rightarrow> 0 | Some h \<Rightarrow> h))
   \<and> scrollDelta baseHeight maxElements prependedCount indicatorHeight
     = (if maxElements = 0 then None
        else Some (fl (fl (rat_of_int prependedCount * fl (baseHeight / rat_of_int maxElements))
               - indicatorHeight)))
   \<and> (\<forall>d. scrollDelta baseHeight maxElements prependedCount indicatorHeight = Some d \<longrightarrow>
         \<bar>d - (rat_of_int prependedCount * (baseHeight / rat_of_int maxElements)
                - indicatorHeight)\<bar> * 2 ^ 53
         \<le> 3 * \<bar>rat_of_int prependedCount * (baseHeight / rat_of_int maxElements)\<bar>
           + \<bar>rat_of_int prependedCount * (baseHeight / rat_of_int maxElements)
                - indicatorHeight\<bar>)
   \<and> scrollDelta 1000 60 30 50 = Some (450 + 1 / 2 ^ 44)
   \<and> scrollTopAdjustment 30 1050 (Some 50) (replicate 30 ()) = Some (450 + 1 / 2 ^ 44)"
proof -
  have a: "scrollTopAdjustment sz scrollHeight offsetHeight moreData
     = scrollDelta
         (fl (rat_of_int scrollHeight - rat_of_int (case offsetHeight of None \<Rightarrow> 0 | Some h \<Rightarrow> h)))
         (2 * sz) (int (length moreData))
         (rat_of_int (case offsetHeight of None \<Rightarrow> 0 | Some h \<Rightarrow> h))"
    by (simp add: scrollTopAdjustment_def maxNumberOfElements_def fsub_def Let_def
        mult.commute [of sz 2])
  have b: "scrollDelta baseHeight maxElements prependedCount indicatorHeight
     = (if maxElements = 0 then None
        else Some (fl (fl (rat_of_int prependedCount * fl (baseHeight / rat_of_int maxElements))
               - indicatorHeight)))"
    by (simp add: scrollDelta_def fdiv_def fsub_def fmul_def)
  have c: "\<forall>d. scrollDelta baseHeight maxElements prependedCount indicatorHeight = Some d \<longrightarrow>
         \<bar>d - (rat_of_int prependedCount * (baseHeight / rat_of_int maxElements)
                - indicatorHeight)\<bar> * 2 ^ 53
         \<le> 3 * \<bar>rat_of_int prependedCount * (baseHeight / rat_of_int maxElements)\<bar>
           + \<bar>rat_of_int prependedCount * (baseHeight / rat_of_int maxElements)
                - indicatorHeight\<bar>"
    using scrollDelta_accuracy(2) by blast
  have d: "scrollDelta 1000 60 30 50 = Some (450 + 1 / 2 ^ 44)"
    by code_simp
  have e: "scrollTopAdjustment 30 1050 (Some 50) (replicate 30 ()) = Some (450 + 1 / 2 ^ 44)"
    by code_simp
  from a b c d e show ?thesis by (simp only: simp_thms)
qed

theorem scroll_adjustment_witness:
  "scrollDelta 1000 60 30 50 = Some (450 + 1 / 2 ^ 44)
   \<and> \<bar>(450 + 1 / 2 ^ 44) - (rat_of_int 30 * (1000 / rat_of_int 60) - 50)\<bar> * 2 ^ 53
       \<le> 3 * \<bar>rat_of_int 30 * (1000 / rat_of_int 60)\<bar>
         + \<bar>rat_of_int 30 * (1000 / rat_of_int 60) - 50\<bar>"
proof -
  note t = scroll_adjustment [of 30 1050 "Some 50" "replicate 30 ()" 1000 60 30 50]
  have v: "scrollDelta 1000 60 30 50 = Some (450 + 1 / 2 ^ 44)"
    using t by (elim conjE)
  have "\<forall>d. scrollDelta 1000 60 30 50 = Some d \<longrightarrow>
         \<bar>d - (rat_of_int 30 * (1000 / rat_of_int 60) - 50)\<bar> * 2 ^ 53
         \<le> 3 * \<bar>rat_of_int 30 * (1000 / rat_of_int 60)\<bar>
           + \<bar>rat_of_int 30 * (1000 / rat_of_int 60) - 50\<bar>"
    using t by (elim conjE)
  with v show ?thesis by blast
qed

text \<open>
  Claim C6 as it is written gives 450 for these values.
\<close>

theorem scroll_delta_not_450: "scrollDelta 1000 60 30 50 \<noteq> Some 450"
  by code_simp

section \<open>Reset\<close>

lemma window_simps [simp]: "window (Some xs) = xs" "window None = []"
  by (simp_all add: window_def)











section \<open>A forward fetch without a result\<close>

text \<open>
  Claim C10. When a forward fetch resolves with \<open>undefined\<close>, the window the fetch started
  from is stored again with nothing appended (it is within the bound of \<open>2 * size\<close> items, so
  nothing is trimmed), and \<open>dataFinished\<close> keeps its value: \<open>undefined < size\<close> is false.
\<close>

theorem forward_undefined:
  assumes "int (length (window d)) \<le> 2 * sz"
    and "s' = step sz loaderComponent (ForwardSettled d (Resolved None)) s"
  shows "data s' = Some (window d) \<and> dataFinished s' = dataFinished s"
  using assms
  by (simp add: step_def forward_settled_def maxNumberOfElements_def Let_def window_def
      data_length_def num_less_def)

theorem forward_undefined_witness:
  "int (length (window (Some [1, 2, 3 :: nat]))) \<le> 2 * 2
   \<and> data (step 2 True (ForwardSettled (Some [1, 2, 3 :: nat]) (Resolved None))
        (initial_component\<lparr>data := Some [1, 2, 3]\<rparr>)) = Some [1, 2, 3]
   \<and> \<not> dataFinished (step 2 True (ForwardSettled (Some [1, 2, 3 :: nat]) (Resolved None))
        (initial_component\<lparr>data := Some [1, 2, 3]\<rparr>))"
  using forward_undefined [of "Some [1, 2, 3 :: nat]" 2
      "step 2 True (ForwardSettled (Some [1, 2, 3]) (Resolved None))
         (initial_component\<lparr>data := Some [1, 2, 3]\<rparr>)"
      True "initial_component\<lparr>data := Some [1, 2, 3]\<rparr>"]
  by (simp add: window_def initial_component_def)

end
